theory Spec2Isabelle
  imports Main "HOL-Library.Sublist"
begin

section \<open>Field extraction from recognised text\<close>

text \<open>
  The development embeds the field-extraction code of the component
  \<^verbatim>\<open>ImageTextExtractor\<close> (function \<^verbatim>\<open>extractText\<close> and its local function
  \<^verbatim>\<open>extractFieldValue\<close>): the splitting of the recognised text into lines, the
  search of a field's value among them, the object \<^verbatim>\<open>fields\<close> and the text
  \<^verbatim>\<open>fullText\<close>.

  A JavaScript string is a \<^typ>\<open>string\<close>; a character of HOL stands for the code
  unit with the same number, so the strings covered are those over U+0000 to U+00FF.
\<close>

subsection \<open>Strings\<close>

text \<open>
  \<^verbatim>\<open>String.prototype.toLowerCase\<close>, one code unit at a time: the letters A to Z and
  the capital letters of U+00C0 to U+00DE (all but the multiplication sign U+00D7) move
  up by 32, every other code unit below 256 stays.
\<close>

definition toLowerCase_char :: "char \<Rightarrow> char" where
  "toLowerCase_char c =
     (let n = (of_char c :: nat)
      in if (65 \<le> n \<and> n \<le> 90) \<or> (192 \<le> n \<and> n \<le> 222 \<and> n \<noteq> 215)
         then char_of (n + 32) else c)"

definition toLowerCase :: "string \<Rightarrow> string" where
  "toLowerCase s = map toLowerCase_char s"

text \<open>
  The white space and line terminators that \<^verbatim>\<open>String.prototype.trim\<close> removes, among
  the code units below 256: tab, line feed, vertical tab, form feed, carriage return,
  space and the no-break space.
\<close>

definition isWhiteSpace :: "char \<Rightarrow> bool" where
  "isWhiteSpace c =
     (let n = (of_char c :: nat)
      in n = 9 \<or> n = 10 \<or> n = 11 \<or> n = 12 \<or> n = 13 \<or> n = 32 \<or> n = 160)"

definition trim :: "string \<Rightarrow> string" where
  "trim s = rev (dropWhile isWhiteSpace (rev (dropWhile isWhiteSpace s)))"

text \<open>\<^verbatim>\<open>s.includes(p)\<close>: \<open>p\<close> occurs in \<open>s\<close> at some position, compared as it is.\<close>

fun includes_str :: "string \<Rightarrow> string \<Rightarrow> bool" where
  "includes_str [] p = (p = [])"
| "includes_str (c # cs) p = (prefix p (c # cs) \<or> includes_str cs p)"

text \<open>\<^verbatim>\<open>text.split("\n")\<close>: the segments between the line feeds; never an empty array.\<close>

definition newline :: char where
  "newline = CHR 0x0A"

fun split_newline :: "string \<Rightarrow> string list" where
  "split_newline [] = [[]]"
| "split_newline (c # cs) =
     (if c = newline then [] # split_newline cs
      else case split_newline cs of
             seg # segs \<Rightarrow> (c # seg) # segs
           | [] \<Rightarrow> [[c]])"

text \<open>\<^verbatim>\<open>Array.prototype.join('\n')\<close>.\<close>

fun join_newline :: "string list \<Rightarrow> string" where
  "join_newline [] = []"
| "join_newline [s] = s"
| "join_newline (s # t # ss) = s @ newline # join_newline (t # ss)"

text \<open>\<^verbatim>\<open>lines.indexOf(line)\<close>: the first position of an equal string, or \<open>-1\<close>.\<close>

fun indexOf :: "string list \<Rightarrow> string \<Rightarrow> int" where
  "indexOf [] x = -1"
| "indexOf (y # ys) x =
     (if y = x then 0 else (let i = indexOf ys x in if i < 0 then -1 else i + 1))"

subsection \<open>The regular expression built from a pattern\<close>

text \<open>
  \<^verbatim>\<open>new RegExp(pattern, "gi")\<close> reads the pattern as the source of a regular
  expression, and throws \<^verbatim>\<open>SyntaxError\<close> when it is not one. The expressions written
  out here are those of the patterns made of ordinary characters, each matching itself
  up to case, and of the dot, which matches any character but a line terminator:
  \<open>RegExp\<close> is \<open>None\<close> on any other pattern.
\<close>

datatype error = SyntaxError

datatype atom = PatternCharacter char | Dot

definition backslash :: char where
  "backslash = CHR 0x5C"

definition syntaxCharacter :: "char \<Rightarrow> bool" where
  "syntaxCharacter c = (c \<in> set ''^$.*+?()[]{}|'' \<or> c = backslash)"

text \<open>A pattern whose only syntax character, if any, is the dot.\<close>

definition dotPattern :: "string \<Rightarrow> bool" where
  "dotPattern pattern = (\<not> list_ex (\<lambda>c. syntaxCharacter c \<and> c \<noteq> CHR ''.'') pattern)"

definition RegExp :: "string \<Rightarrow> atom list option" where
  "RegExp pattern =
     (if dotPattern pattern
      then Some (map (\<lambda>c. if c = CHR ''.'' then Dot else PatternCharacter c) pattern)
      else None)"

text \<open>
  A pattern with an opening parenthesis and without a closing one, a bracket or a
  backslash: the parenthesis opens a group that nothing closes, and the constructor
  throws.
\<close>

definition unterminatedGroup :: "string \<Rightarrow> bool" where
  "unterminatedGroup pattern =
     (CHR ''('' \<in> set pattern \<and> CHR '')'' \<notin> set pattern \<and> CHR ''['' \<notin> set pattern \<and>
      backslash \<notin> set pattern)"

text \<open>
  The flag \<^verbatim>\<open>i\<close> compares canonicalised characters: the small letters a to z and
  those of U+00E0 to U+00FE (all but the division sign U+00F7) move down by 32.
\<close>

definition canonicalize :: "char \<Rightarrow> char" where
  "canonicalize c =
     (let n = (of_char c :: nat)
      in if (97 \<le> n \<and> n \<le> 122) \<or> (224 \<le> n \<and> n \<le> 254 \<and> n \<noteq> 247)
         then char_of (n - 32) else c)"

definition lineTerminator :: "char \<Rightarrow> bool" where
  "lineTerminator c = (let n = (of_char c :: nat) in n = 10 \<or> n = 13)"

fun matchesAtom :: "atom \<Rightarrow> char \<Rightarrow> bool" where
  "matchesAtom (PatternCharacter a) c = (canonicalize a = canonicalize c)"
| "matchesAtom Dot c = (\<not> lineTerminator c)"

text \<open>A match of the whole expression at the start of the input: what is left after it.\<close>

fun matchPrefix :: "atom list \<Rightarrow> string \<Rightarrow> string option" where
  "matchPrefix [] s = Some s"
| "matchPrefix (a # as) [] = None"
| "matchPrefix (a # as) (c # cs) = (if matchesAtom a c then matchPrefix as cs else None)"

text \<open>
  \<^verbatim>\<open>s.replace(re, "")\<close> with the flag \<^verbatim>\<open>g\<close>: the matches are looked for from left to
  right, each from the end of the one before; an empty match moves on by one character,
  which stays.
\<close>

fun replaceAll :: "atom list \<Rightarrow> string \<Rightarrow> string" where
  "replaceAll re [] = []"
| "replaceAll re (c # cs) =
     (case matchPrefix re (c # cs) of
        None \<Rightarrow> c # replaceAll re cs
      | Some rest \<Rightarrow>
          if length rest \<le> length cs then replaceAll re rest else c # replaceAll re cs)"

text \<open>
  For the other patterns, what \<^verbatim>\<open>line.replace(new RegExp(pattern, "gi"), "")\<close> does
  is left open: it is a function of the pattern and the line that throws or returns a
  string. The definitions below take it as the parameter \<open>engine\<close>, and every property
  is proved for every such function.
\<close>

type_synonym engine = "string \<Rightarrow> string \<Rightarrow> error + string"

text \<open>\<^verbatim>\<open>line.replace(new RegExp(pattern, "gi"), "")\<close>.\<close>

definition replace_gi :: "engine \<Rightarrow> string \<Rightarrow> string \<Rightarrow> error + string" where
  "replace_gi engine pattern line =
     (case RegExp pattern of
        Some re \<Rightarrow> Inr (replaceAll re line)
      | None \<Rightarrow> if unterminatedGroup pattern then Inl SyntaxError else engine pattern line)"

text \<open>\<^verbatim>\<open>.replace(/[:=\-|]/g, "")\<close>.\<close>

definition punctuation :: "char \<Rightarrow> bool" where
  "punctuation c = (c = CHR '':'' \<or> c = CHR ''='' \<or> c = CHR ''-'' \<or> c = CHR ''|'')"

definition removePunctuation :: "string \<Rightarrow> string" where
  "removePunctuation s = filter (\<lambda>c. \<not> punctuation c) s"

subsection \<open>The field matcher\<close>

record FieldSpec =
  key :: string
  patterns :: "string list"

definition notFound :: string where
  "notFound = ''Not found''"

text \<open>
  The constant \<^verbatim>\<open>value\<close> of \<^verbatim>\<open>extractFieldValue\<close>: the line without the matches of
  the pattern, without the punctuation, trimmed.
\<close>

definition candidateValue :: "engine \<Rightarrow> string \<Rightarrow> string \<Rightarrow> error + string" where
  "candidateValue engine pattern line =
     (case replace_gi engine pattern line of
        Inl e \<Rightarrow> Inl e
      | Inr s \<Rightarrow> Inr (trim (removePunctuation s)))"

text \<open>The body of the test \<^verbatim>\<open>if (lineLower.includes(pattern))\<close>, which always returns.\<close>

definition matched :: "engine \<Rightarrow> string \<Rightarrow> string \<Rightarrow> string list \<Rightarrow> error + string" where
  "matched engine pattern line lines =
     (case candidateValue engine pattern line of
        Inl e \<Rightarrow> Inl e
      | Inr v \<Rightarrow>
          (let lineIndex = indexOf lines line
           in if v = [] \<and> lineIndex < int (length lines) - 1
              then Inr (trim (lines ! nat (lineIndex + 1)))
              else Inr (if v = [] then notFound else v)))"

text \<open>The inner loop, over the patterns: \<open>None\<close> when it ends without a return.\<close>

fun forPatterns ::
  "engine \<Rightarrow> string list \<Rightarrow> string \<Rightarrow> string \<Rightarrow> string list \<Rightarrow> (error + string) option" where
  "forPatterns engine [] lineLower line lines = None"
| "forPatterns engine (pattern # ps) lineLower line lines =
     (if includes_str lineLower pattern then Some (matched engine pattern line lines)
      else forPatterns engine ps lineLower line lines)"

text \<open>The outer loop, over the lines that are left.\<close>

fun forLines :: "engine \<Rightarrow> string list \<Rightarrow> string list \<Rightarrow> string list \<Rightarrow> error + string" where
  "forLines engine ps [] lines = Inr notFound"
| "forLines engine ps (line # rest) lines =
     (case forPatterns engine ps (toLowerCase line) line lines of
        Some r \<Rightarrow> r
      | None \<Rightarrow> forLines engine ps rest lines)"

definition extractFieldValue :: "engine \<Rightarrow> FieldSpec \<Rightarrow> string list \<Rightarrow> error + string" where
  "extractFieldValue engine fieldConfig lines = forLines engine (patterns fieldConfig) lines lines"

subsection \<open>The lines, the object of fields and the summary\<close>

text \<open>
  \<^verbatim>\<open>text.split("\n").map(line => line.trim()).filter(line => line.length > 0)\<close>,
  the constant \<^verbatim>\<open>lines\<close> of \<^verbatim>\<open>extractText\<close>.
\<close>

definition lines :: "string \<Rightarrow> string list" where
  "lines text = filter (\<lambda>line. length line > 0) (map trim (split_newline text))"

text \<open>
  The object \<^verbatim>\<open>fields\<close> is a \<^verbatim>\<open>Record<string, string>\<close> that starts as \<^verbatim>\<open>{}\<close>. It
  is modelled by its own properties in the order in which \<^verbatim>\<open>Object.entries\<close> lists
  them: the keys that are array indices first, by ascending value, then the other keys
  in the order of their creation.
\<close>

type_synonym jsobject = "(string \<times> string) list"

text \<open>The state of the component that \<^verbatim>\<open>extractText\<close> writes.\<close>

record State =
  extractedText :: string
  extractedFields :: jsobject
  isProcessing :: bool

definition digit :: "char \<Rightarrow> bool" where
  "digit c = (c \<in> set ''0123456789'')"

definition indexValue :: "string \<Rightarrow> int" where
  "indexValue k = foldl (\<lambda>n c. 10 * n + (of_char c - 48)) 0 k"

text \<open>An array index: the canonical decimal writing of a number below \<open>2^32 - 1\<close>.\<close>

definition arrayIndex :: "string \<Rightarrow> bool" where
  "arrayIndex k =
     (k \<noteq> [] \<and> list_all digit k \<and> (hd k \<noteq> CHR ''0'' \<or> k = ''0'') \<and> indexValue k < 4294967295)"

definition before :: "string \<Rightarrow> string \<times> string \<Rightarrow> bool" where
  "before k e = (arrayIndex (fst e) \<and> indexValue (fst e) < indexValue k)"

text \<open>
  \<^verbatim>\<open>fields[k] = v\<close> for a string \<open>v\<close>. The key \<^verbatim>\<open>__proto__\<close> is the accessor of
  \<^verbatim>\<open>Object.prototype\<close>, whose setter ignores a string: no property is created. Another
  key is updated where it stands when the object has it, and created otherwise.
\<close>

definition setProperty :: "jsobject \<Rightarrow> string \<Rightarrow> string \<Rightarrow> jsobject" where
  "setProperty obj k v =
     (if k = ''__proto__'' then obj
      else if map_of obj k \<noteq> None then map (\<lambda>e. if fst e = k then (k, v) else e) obj
      else if arrayIndex k then takeWhile (before k) obj @ (k, v) # dropWhile (before k) obj
      else obj @ [(k, v)])"

text \<open>
  \<^verbatim>\<open>${fields[k]}\<close>: the property as text. The key \<^verbatim>\<open>__proto__\<close> reads the prototype
  object, whose text is \<^verbatim>\<open>[object Object]\<close>. The last case, a key the object does not
  have, is never reached from \<^verbatim>\<open>extractText\<close>, which reads the keys it has assigned.
\<close>

definition readProperty :: "jsobject \<Rightarrow> string \<Rightarrow> string" where
  "readProperty obj k =
     (if k = ''__proto__'' then ''[object Object]''
      else case map_of obj k of Some v \<Rightarrow> v | None \<Rightarrow> ''undefined'')"

text \<open>
  \<^verbatim>\<open>importantFields.forEach((field) => { fields[field.key] = extractFieldValue(field, lines); })\<close>:
  an exception thrown in \<^verbatim>\<open>extractFieldValue\<close> ends the loop.
\<close>

fun forEach :: "engine \<Rightarrow> FieldSpec list \<Rightarrow> string list \<Rightarrow> jsobject \<Rightarrow> error + jsobject" where
  "forEach engine [] ls obj = Inr obj"
| "forEach engine (field # rest) ls obj =
     (case extractFieldValue engine field ls of
        Inl e \<Rightarrow> Inl e
      | Inr v \<Rightarrow> forEach engine rest ls (setProperty obj (key field) v))"

definition fields :: "engine \<Rightarrow> FieldSpec list \<Rightarrow> string list \<Rightarrow> error + jsobject" where
  "fields engine importantFields ls = forEach engine importantFields ls []"

definition fullText :: "FieldSpec list \<Rightarrow> jsobject \<Rightarrow> string" where
  "fullText importantFields obj =
     join_newline (map (\<lambda>field. key field @ '': '' @ readProperty obj (key field)) importantFields)"

text \<open>The structured result and the summary, from the configuration and the recognised text.\<close>

definition extraction :: "engine \<Rightarrow> FieldSpec list \<Rightarrow> string \<Rightarrow> error + jsobject \<times> string" where
  "extraction engine importantFields text =
     (case fields engine importantFields (lines text) of
        Inl e \<Rightarrow> Inl e
      | Inr obj \<Rightarrow> Inr (obj, fullText importantFields obj))"

text \<open>The configuration written in \<^verbatim>\<open>extractText\<close>.\<close>

definition importantFields :: "FieldSpec list" where
  "importantFields =
     [\<lparr>key = ''Model Name'', patterns = [''model name'', ''model'', ''product'']\<rparr>,
      \<lparr>key = ''Model Number'', patterns = [''model number'', ''model no'', ''part number'', ''p/n'']\<rparr>,
      \<lparr>key = ''Serial Number'', patterns = [''serial number'', ''serial no'', ''s/n'', ''sn'']\<rparr>]"

text \<open>
  \<^verbatim>\<open>extractText\<close> for a selected image on which the recogniser returned \<open>text\<close>:
  the results are reset, then set from the text; an exception leaves the message of the
  \<^verbatim>\<open>catch\<close> block.
\<close>

definition extractText :: "engine \<Rightarrow> FieldSpec list \<Rightarrow> string \<Rightarrow> State \<Rightarrow> State" where
  "extractText engine config text st =
     (let st1 = st\<lparr>isProcessing := True, extractedText := [], extractedFields := []\<rparr>
      in case extraction engine config text of
           Inr (obj, summary) \<Rightarrow>
             st1\<lparr>extractedFields := obj, extractedText := summary, isProcessing := False\<rparr>
         | Inl e \<Rightarrow>
             st1\<lparr>extractedText := ''Error occurred while extracting text. Please try again.'',
                 isProcessing := False\<rparr>)"

subsection \<open>The specification's notions\<close>

text \<open>
  Following the specification's words: a line contains a pattern as a case-insensitive
  substring.
\<close>

definition contains_ci :: "string \<Rightarrow> string \<Rightarrow> bool" where
  "contains_ci line p = sublist (toLowerCase p) (toLowerCase line)"

text \<open>
  Following the specification's words: the line with all case-insensitive occurrences
  of the pattern text removed, read from left to right.
\<close>

fun remove_occurrences_ci :: "string \<Rightarrow> string \<Rightarrow> string" where
  "remove_occurrences_ci p [] = []"
| "remove_occurrences_ci p (c # cs) =
     (if p \<noteq> [] \<and> toLowerCase (take (length p) (c # cs)) = toLowerCase p
      then remove_occurrences_ci p (drop (length p - 1) cs)
      else c # remove_occurrences_ci p cs)"

text \<open>A pattern without a syntax character, which the regular expression reads as plain text.\<close>

definition plainText :: "string \<Rightarrow> bool" where
  "plainText p = (\<not> list_ex syntaxCharacter p)"

text \<open>
  The test of the matcher, \<^verbatim>\<open>line.toLowerCase().includes(pattern)\<close>, as a predicate
  on a line and a pattern.
\<close>

definition lineMatches :: "string \<Rightarrow> string \<Rightarrow> bool" where
  "lineMatches line pattern = includes_str (toLowerCase line) pattern"

text \<open>
  Following the specification's words, for a test of a line against a pattern: line
  \<open>i\<close> is the earliest line that passes the test with any pattern, and pattern \<open>k\<close> is
  the first pattern, in configured order, with which it passes.
\<close>

definition selects ::
  "(string \<Rightarrow> string \<Rightarrow> bool) \<Rightarrow> string list \<Rightarrow> string list \<Rightarrow> nat \<Rightarrow> nat \<Rightarrow> bool" where
  "selects test ps ls i k =
     (i < length ls \<and> k < length ps \<and>
      list_all (\<lambda>l. list_all (\<lambda>p. \<not> test l p) ps) (take i ls) \<and>
      test (ls ! i) (ps ! k) \<and>
      list_all (\<lambda>p. \<not> test (ls ! i) p) (take k ps))"

text \<open>
  Following the specification's words: a line sequence holds non-empty, trimmed
  strings.
\<close>

definition lineSequence :: "string list \<Rightarrow> bool" where
  "lineSequence ls =
     list_all (\<lambda>l. l \<noteq> [] \<and> \<not> isWhiteSpace (hd l) \<and> \<not> isWhiteSpace (last l)) ls"

text \<open>The two case mappings on the numbers of the code units.\<close>

definition lowerN :: "nat \<Rightarrow> nat" where
  "lowerN n =
     (if (65 \<le> n \<and> n \<le> 90) \<or> (192 \<le> n \<and> n \<le> 222 \<and> n \<noteq> 215) then n + 32 else n)"

definition upperN :: "nat \<Rightarrow> nat" where
  "upperN n =
     (if (97 \<le> n \<and> n \<le> 122) \<or> (224 \<le> n \<and> n \<le> 254 \<and> n \<noteq> 247) then n - 32 else n)"

section \<open>Properties\<close>

subsection \<open>Case mappings\<close>

lemma of_char_toLowerCase_char: "of_char (toLowerCase_char c) = lowerN (of_char c)"
  by (simp add: toLowerCase_char_def lowerN_def Let_def of_char_of)

lemma of_char_canonicalize: "of_char (canonicalize c) = upperN (of_char c)"
proof -
  have "(of_char c :: nat) - 32 < 256"
    using nat_of_char_less_256 [of c] by arith
  then have "(of_char c - 32 :: nat) mod 256 = of_char c - 32"
    by (rule mod_less)
  then show ?thesis
    by (simp add: canonicalize_def upperN_def Let_def of_char_of)
qed

lemma lowerN_upperN: "lowerN (upperN n) = lowerN n"
proof -
  consider "n < 97" | "97 \<le> n" "n \<le> 122" | "122 < n" "n < 224"
    | "224 \<le> n" "n \<le> 254" "n \<noteq> 247" | "n = 247" | "254 < n"
    by arith
  then show ?thesis
    by cases (simp_all add: lowerN_def upperN_def, arith+)
qed

lemma upperN_lowerN: "upperN (lowerN n) = upperN n"
proof -
  consider "n < 65" | "65 \<le> n" "n \<le> 90" | "90 < n" "n < 192"
    | "192 \<le> n" "n \<le> 222" "n \<noteq> 215" | "n = 215" | "222 < n"
    by arith
  then show ?thesis
    by cases (simp_all add: lowerN_def upperN_def)
qed

lemma toLowerCase_canonicalize: "toLowerCase_char (canonicalize c) = toLowerCase_char c"
  by (rule of_char_eqI [where ?'a = nat])
    (simp add: of_char_toLowerCase_char of_char_canonicalize lowerN_upperN)

lemma canonicalize_toLowerCase: "canonicalize (toLowerCase_char c) = canonicalize c"
  by (rule of_char_eqI [where ?'a = nat])
    (simp add: of_char_toLowerCase_char of_char_canonicalize upperN_lowerN)

lemma canonicalize_eq_iff:
  "canonicalize a = canonicalize b \<longleftrightarrow> toLowerCase_char a = toLowerCase_char b"
  by (metis toLowerCase_canonicalize canonicalize_toLowerCase)

lemma toLowerCase_char_idem: "toLowerCase_char (toLowerCase_char c) = toLowerCase_char c"
  by (metis toLowerCase_canonicalize canonicalize_toLowerCase)

lemma toLowerCase_idem: "toLowerCase (toLowerCase s) = toLowerCase s"
  by (simp add: toLowerCase_def toLowerCase_char_idem)

subsection \<open>Substrings, trimming and splitting\<close>

lemma includes_str_sublist: "includes_str s p \<longleftrightarrow> sublist p s"
  by (induction s) (auto simp: sublist_Cons_right)

lemma lineMatches_contains_ci: "lineMatches l p \<Longrightarrow> contains_ci l p"
proof -
  assume "lineMatches l p"
  then have "sublist p (toLowerCase l)"
    by (simp add: lineMatches_def includes_str_sublist)
  then have "sublist (toLowerCase p) (toLowerCase (toLowerCase l))"
    unfolding toLowerCase_def by (rule map_mono_sublist)
  then show ?thesis
    by (simp add: contains_ci_def toLowerCase_idem)
qed

lemma contains_ci_lower: "toLowerCase p = p \<Longrightarrow> contains_ci l p = lineMatches l p"
  by (simp add: contains_ci_def lineMatches_def includes_str_sublist)

lemma dropWhile_keeps_end:
  "xs \<noteq> [] \<Longrightarrow> \<not> P (hd xs) \<Longrightarrow> dropWhile P (rev (dropWhile P (rev xs))) = rev (dropWhile P (rev xs))"
  by (cases xs) (simp_all add: dropWhile_append)

lemma trim_idem: "trim (trim s) = trim s"
proof -
  let ?t = "dropWhile isWhiteSpace s"
  have a: "dropWhile isWhiteSpace (rev (dropWhile isWhiteSpace (rev ?t))) = rev (dropWhile isWhiteSpace (rev ?t))"
  proof (cases "?t = []")
    case True
    show ?thesis unfolding True by simp
  next
    case False
    then have "\<not> isWhiteSpace (hd ?t)" by (rule hd_dropWhile)
    with False show ?thesis by (rule dropWhile_keeps_end)
  qed
  show ?thesis
    unfolding trim_def a by (simp add: dropWhile_idem)
qed

lemma trim_hd: "trim s \<noteq> [] \<Longrightarrow> \<not> isWhiteSpace (hd (trim s))"
proof -
  assume ne: "trim s \<noteq> []"
  let ?t = "dropWhile isWhiteSpace s"
  have "?t \<noteq> []" using ne by (metis trim_def dropWhile.simps(1) rev.simps(1))
  then have h: "\<not> isWhiteSpace (hd ?t)" by (rule hd_dropWhile)
  obtain a as where t: "?t = a # as" using \<open>?t \<noteq> []\<close> by (cases ?t) auto
  with h have "\<not> isWhiteSpace a" by simp
  then have "trim s = a # rev (dropWhile isWhiteSpace (rev as))"
    unfolding trim_def t by (simp add: dropWhile_append)
  then show ?thesis using \<open>\<not> isWhiteSpace a\<close> by simp
qed

lemma trim_last: "trim s \<noteq> [] \<Longrightarrow> \<not> isWhiteSpace (last (trim s))"
proof -
  assume ne: "trim s \<noteq> []"
  let ?r = "dropWhile isWhiteSpace (rev (dropWhile isWhiteSpace s))"
  have "?r \<noteq> []" using ne by (simp add: trim_def)
  then have "\<not> isWhiteSpace (hd ?r)" by (rule hd_dropWhile)
  then show ?thesis using \<open>?r \<noteq> []\<close> by (simp add: trim_def last_rev)
qed

lemma dropWhile_id: "xs \<noteq> [] \<Longrightarrow> \<not> P (hd xs) \<Longrightarrow> dropWhile P xs = xs"
  by (cases xs) simp_all

lemma trim_trimmed:
  "s \<noteq> [] \<Longrightarrow> \<not> isWhiteSpace (hd s) \<Longrightarrow> \<not> isWhiteSpace (last s) \<Longrightarrow> trim s = s"
proof -
  assume s: "s \<noteq> []" and h: "\<not> isWhiteSpace (hd s)" and l: "\<not> isWhiteSpace (last s)"
  have 1: "dropWhile isWhiteSpace s = s" using s h by (rule dropWhile_id)
  have "rev s \<noteq> []" "\<not> isWhiteSpace (hd (rev s))" using s l by (simp_all add: hd_rev)
  then have 2: "dropWhile isWhiteSpace (rev s) = rev s" by (rule dropWhile_id)
  show ?thesis by (simp add: trim_def 1 2)
qed

lemma split_newline_not_Nil: "split_newline s \<noteq> []"
  by (induction s) (auto split: list.splits)

lemma join_split_newline: "join_newline (split_newline s) = s"
proof (induction s)
  case Nil
  then show ?case by simp
next
  case (Cons c cs)
  obtain w ws where sp: "split_newline cs = w # ws"
    using split_newline_not_Nil [of cs] by (cases "split_newline cs") auto
  with Cons show ?case
    by (cases ws) auto
qed

lemma split_newline_segments: "seg \<in> set (split_newline s) \<Longrightarrow> newline \<notin> set seg"
proof (induction s arbitrary: seg)
  case Nil
  then show ?case by simp
next
  case (Cons c cs)
  obtain w ws where sp: "split_newline cs = w # ws"
    using split_newline_not_Nil [of cs] by (cases "split_newline cs") auto
  with Cons show ?case
    by (auto split: if_splits)
qed

subsection \<open>The line normalizer\<close>

text \<open>
  C7. For every input string, the empty one included, the line normalizer returns a
  list: the segments between the line feeds (joined again by line feeds they give the
  input back, and none holds a line feed), each trimmed, the empty ones left out, in
  their order. No line of the result is empty, and none starts or ends with white space.
\<close>

theorem lines_normalized:
  "lines text = filter (\<lambda>s. s \<noteq> []) (map trim (split_newline text)) \<and>
   join_newline (split_newline text) = text \<and>
   (\<forall>seg \<in> set (split_newline text). newline \<notin> set seg) \<and>
   subseq (lines text) (map trim (split_newline text)) \<and>
   [] \<notin> set (lines text) \<and>
   (\<forall>l \<in> set (lines text). \<not> isWhiteSpace (hd l) \<and> \<not> isWhiteSpace (last l))"
proof -
  have eq: "lines text = filter (\<lambda>s. s \<noteq> []) (map trim (split_newline text))"
    by (simp add: lines_def)
  have ends: "\<not> isWhiteSpace (hd l) \<and> \<not> isWhiteSpace (last l)" if "l \<in> set (lines text)" for l
  proof -
    from that obtain s where "l = trim s" "trim s \<noteq> []"
      unfolding eq by auto
    then show ?thesis using trim_hd [of s] trim_last [of s] by simp
  qed
  have "subseq (lines text) (map trim (split_newline text))"
    unfolding eq by (rule subseq_filter_left)
  moreover have "[] \<notin> set (lines text)"
    unfolding eq by simp
  ultimately show ?thesis
    using eq ends join_split_newline [of "text"] split_newline_segments [of _ "text"] by blast
qed

theorem lines_normalized_witness:
  "lines '' Model: A  \<newline>\<newline>S/N 1'' = [''Model: A'', ''S/N 1''] \<and>
   [] \<notin> set (lines '' Model: A  \<newline>\<newline>S/N 1'') \<and>
   lines [] = []"
proof -
  have 1: "lines '' Model: A  \<newline>\<newline>S/N 1'' = [''Model: A'', ''S/N 1'']"
    by code_simp
  have 2: "lines [] = []"
    by code_simp
  show ?thesis
    using lines_normalized [of "'' Model: A  \<newline>\<newline>S/N 1''"] 1 2 by blast
qed

subsection \<open>The two loops of the matcher\<close>

lemma forPatterns_None:
  "list_all (\<lambda>p. \<not> includes_str ll p) ps \<Longrightarrow> forPatterns engine ps ll line all = None"
  by (induction ps) simp_all

lemma forPatterns_Some:
  "k < length ps \<Longrightarrow> includes_str ll (ps ! k) \<Longrightarrow>
   list_all (\<lambda>p. \<not> includes_str ll p) (take k ps) \<Longrightarrow>
   forPatterns engine ps ll line all = Some (matched engine (ps ! k) line all)"
proof (induction ps arbitrary: k)
  case Nil
  then show ?case by simp
next
  case (Cons p ps)
  then show ?case by (cases k) simp_all
qed

lemma forLines_none:
  "list_all (\<lambda>l. list_all (\<lambda>p. \<not> lineMatches l p) ps) ls \<Longrightarrow> forLines engine ps ls all = Inr notFound"
  by (induction ls) (simp_all add: forPatterns_None lineMatches_def)

lemma forLines_at:
  "i < length ls \<Longrightarrow>
   list_all (\<lambda>l. list_all (\<lambda>p. \<not> lineMatches l p) ps) (take i ls) \<Longrightarrow>
   forPatterns engine ps (toLowerCase (ls ! i)) (ls ! i) all = Some r \<Longrightarrow>
   forLines engine ps ls all = r"
proof (induction ls arbitrary: i)
  case Nil
  then show ?case by simp
next
  case (Cons l ls)
  then show ?case
    by (cases i) (simp_all add: forPatterns_None lineMatches_def)
qed

lemma extractFieldValue_selects:
  assumes "selects lineMatches (patterns spec) ls i k"
  shows "extractFieldValue engine spec ls = matched engine (patterns spec ! k) (ls ! i) ls"
proof -
  from assms have "forPatterns engine (patterns spec) (toLowerCase (ls ! i)) (ls ! i) ls =
      Some (matched engine (patterns spec ! k) (ls ! i) ls)"
    by (intro forPatterns_Some) (simp_all add: selects_def lineMatches_def)
  with assms show ?thesis
    unfolding extractFieldValue_def by (intro forLines_at) (simp_all add: selects_def)
qed

lemma extractFieldValue_none:
  "list_all (\<lambda>l. list_all (\<lambda>p. \<not> lineMatches l p) (patterns spec)) ls \<Longrightarrow>
   extractFieldValue engine spec ls = Inr notFound"
  by (simp add: extractFieldValue_def forLines_none)

lemma indexOf_first:
  "i < length ls \<Longrightarrow> ls ! i = x \<Longrightarrow> list_all (\<lambda>l. l \<noteq> x) (take i ls) \<Longrightarrow> indexOf ls x = int i"
proof (induction ls arbitrary: i)
  case Nil
  then show ?case by simp
next
  case (Cons l ls)
  then show ?case by (cases i) (simp_all add: Let_def)
qed

lemma selects_first_occurrence:
  assumes "selects test ps ls i k"
  shows "list_all (\<lambda>l. l \<noteq> ls ! i) (take i ls)"
proof -
  have "l \<noteq> ls ! i" if "l \<in> set (take i ls)" for l
  proof
    assume "l = ls ! i"
    moreover from assms that have "list_all (\<lambda>p. \<not> test l p) ps"
      by (simp add: selects_def list_all_iff)
    moreover from assms have "ps ! k \<in> set ps" "test (ls ! i) (ps ! k)"
      by (simp_all add: selects_def)
    ultimately show False by (simp add: list_all_iff)
  qed
  then show ?thesis by (simp add: list_all_iff)
qed

lemma matched_selects:
  assumes "selects test ps ls i k"
  shows "matched engine p (ls ! i) ls =
    (case candidateValue engine p (ls ! i) of
       Inl e \<Rightarrow> Inl e
     | Inr v \<Rightarrow>
         if v \<noteq> [] then Inr v
         else if Suc i < length ls then Inr (trim (ls ! Suc i)) else Inr notFound)"
proof -
  from assms have i: "i < length ls" by (simp add: selects_def)
  then have "indexOf ls (ls ! i) = int i"
    using selects_first_occurrence [OF assms] by (intro indexOf_first) simp_all
  moreover have "nat (int i + 1) = Suc i" by simp
  moreover have "(int i < int (length ls) - 1) = (Suc i < length ls)" by arith
  ultimately show ?thesis
    by (simp add: matched_def Let_def split: sum.splits)
qed

subsection \<open>Patterns read as plain text\<close>

lemma syntaxCharacter_dot: "syntaxCharacter (CHR ''.'')"
  by (simp add: syntaxCharacter_def)

lemma RegExp_plainText:
  assumes "plainText p"
  shows "RegExp p = Some (map PatternCharacter p)"
proof -
  from assms have no: "\<forall>c \<in> set p. \<not> syntaxCharacter c"
    by (simp add: plainText_def list_ex_iff)
  then have "\<forall>c \<in> set p. c \<noteq> CHR ''.''"
    using syntaxCharacter_dot by blast
  then have "map (\<lambda>c. if c = CHR ''.'' then Dot else PatternCharacter c) p = map PatternCharacter p"
    by simp
  moreover from no have "dotPattern p"
    by (simp add: dotPattern_def list_ex_iff)
  ultimately show ?thesis by (simp add: RegExp_def)
qed

lemma matchPrefix_plainText:
  "matchPrefix (map PatternCharacter p) s =
     (if toLowerCase (take (length p) s) = toLowerCase p then Some (drop (length p) s) else None)"
proof (induction p arbitrary: s)
  case Nil
  then show ?case by (simp add: toLowerCase_def)
next
  case (Cons a p)
  show ?case
  proof (cases s)
    case Nil
    then show ?thesis by (simp add: toLowerCase_def)
  next
    case (Cons c cs)
    then show ?thesis
      using Cons.IH [of cs]
      by (auto simp: toLowerCase_def canonicalize_eq_iff)
  qed
qed

lemma replaceAll_plainText:
  "replaceAll (map PatternCharacter p) s = remove_occurrences_ci p s"
proof (induction p s rule: remove_occurrences_ci.induct)
  case (1 p)
  then show ?case by simp
next
  case (2 p c cs)
  show ?case
  proof (cases "p \<noteq> [] \<and> toLowerCase (take (length p) (c # cs)) = toLowerCase p")
    case True
    then have "drop (length p) (c # cs) = drop (length p - 1) cs"
      by (cases p) simp_all
    with True 2 show ?thesis
      by (simp add: matchPrefix_plainText)
  next
    case False
    with 2 show ?thesis
      by (cases "p = []") (simp_all add: matchPrefix_plainText)
  qed
qed

lemma candidateValue_plainText:
  "plainText p \<Longrightarrow>
   candidateValue engine p l = Inr (trim (removePunctuation (remove_occurrences_ci p l)))"
  by (simp add: candidateValue_def replace_gi_def RegExp_plainText replaceAll_plainText)

subsection \<open>Selected lines and patterns\<close>

lemma selects_cong:
  assumes "\<And>l p. p \<in> set ps \<Longrightarrow> test l p = test' l p"
  shows "selects test ps ls i k = selects test' ps ls i k"
proof -
  have 1: "list_all (\<lambda>p. \<not> test l p) ps = list_all (\<lambda>p. \<not> test' l p) ps" for l
    using assms by (simp add: list_all_iff)
  have 2: "list_all (\<lambda>p. \<not> test l p) (take k ps) = list_all (\<lambda>p. \<not> test' l p) (take k ps)" for l
    using assms by (auto simp: list_all_iff dest: in_set_takeD)
  have 3: "k < length ps \<Longrightarrow> test l (ps ! k) = test' l (ps ! k)" for l
    using assms by simp
  show ?thesis
    unfolding selects_def 1 2 using 3 by blast
qed

lemma selects_lower_case:
  assumes "list_all (\<lambda>p. toLowerCase p = p) ps"
  shows "selects contains_ci ps ls i k = selects lineMatches ps ls i k"
  using assms by (intro selects_cong) (simp add: list_all_iff contains_ci_lower)

lemma selects_take:
  assumes "selects test ps ls i k"
  shows "selects test (take (Suc k) ps) (take (Suc (Suc i)) ls) i k"
proof -
  from assms have i: "i < length ls" and k: "k < length ps"
    and b: "list_all (\<lambda>l. list_all (\<lambda>p. \<not> test l p) ps) (take i ls)"
    and t: "test (ls ! i) (ps ! k)"
    and a: "list_all (\<lambda>p. \<not> test (ls ! i) p) (take k ps)"
    by (simp_all add: selects_def)
  have "list_all (\<lambda>l. list_all (\<lambda>p. \<not> test l p) (take (Suc k) ps)) (take i ls)"
    using b by (auto simp: list_all_iff dest: in_set_takeD)
  moreover have "take i (take (Suc (Suc i)) ls) = take i ls"
    by (simp add: min_def)
  moreover have "take k (take (Suc k) ps) = take k ps"
    by (simp add: min_def)
  ultimately show ?thesis
    using i k t a by (simp add: selects_def)
qed

lemma first_failure:
  "\<not> list_all Q xs \<Longrightarrow> \<exists>i < length xs. \<not> Q (xs ! i) \<and> list_all Q (take i xs)"
proof (induction xs)
  case Nil
  then show ?case by simp
next
  case (Cons x xs)
  show ?case
  proof (cases "Q x")
    case True
    with Cons obtain i where "i < length xs" "\<not> Q (xs ! i)" "list_all Q (take i xs)"
      by auto
    with True have "Suc i < length (x # xs) \<and> \<not> Q ((x # xs) ! Suc i) \<and> list_all Q (take (Suc i) (x # xs))"
      by simp
    then show ?thesis by blast
  next
    case False
    then have "0 < length (x # xs) \<and> \<not> Q ((x # xs) ! 0) \<and> list_all Q (take 0 (x # xs))"
      by simp
    then show ?thesis by blast
  qed
qed

lemma selects_exists:
  assumes "\<not> list_all (\<lambda>l. list_all (\<lambda>p. \<not> test l p) ps) ls"
  shows "\<exists>i k. selects test ps ls i k"
proof -
  from first_failure [OF assms] obtain i where i: "i < length ls"
    and m: "\<not> list_all (\<lambda>p. \<not> test (ls ! i) p) ps"
    and b: "list_all (\<lambda>l. list_all (\<lambda>p. \<not> test l p) ps) (take i ls)"
    by blast
  from first_failure [OF m] obtain k where "k < length ps" "test (ls ! i) (ps ! k)"
    "list_all (\<lambda>p. \<not> test (ls ! i) p) (take k ps)"
    by auto
  with i b have "selects test ps ls i k"
    by (simp add: selects_def)
  then show ?thesis by blast
qed

subsection \<open>The next-line fallback\<close>

text \<open>
  C2, as amended. Let no pattern of the field hold an upper-case letter, let line \<open>i\<close>
  be the earliest line that contains any of the patterns as a case-insensitive
  substring and pattern \<open>k\<close> the first pattern it contains, and let that pattern hold no
  syntax character of regular expressions. If the line without the case-insensitive
  occurrences of the pattern text, without the characters colon, equals sign, hyphen
  and vertical bar, trimmed, is empty, then the field's value is the next line,
  trimmed, when line \<open>i\<close> is not the last one, and the not-found text when it is.
  Nothing is asked of the other lines, so the text of line \<open>i\<close> may occur again later.
\<close>

theorem fallback_next_line:
  assumes "list_all (\<lambda>p. toLowerCase p = p) (patterns spec)"
    and "selects contains_ci (patterns spec) ls i k"
    and "plainText (patterns spec ! k)"
    and "trim (removePunctuation (remove_occurrences_ci (patterns spec ! k) (ls ! i))) = []"
  shows "extractFieldValue engine spec ls =
    Inr (if Suc i < length ls then trim (ls ! Suc i) else notFound)"
proof -
  from assms(1,2) have sel: "selects lineMatches (patterns spec) ls i k"
    by (simp add: selects_lower_case)
  from assms(3,4) have "candidateValue engine (patterns spec ! k) (ls ! i) = Inr []"
    by (simp add: candidateValue_plainText)
  then show ?thesis
    by (simp add: extractFieldValue_selects [OF sel] matched_selects [OF sel])
qed

theorem fallback_next_line_witness:
  "\<forall>engine.
   extractFieldValue engine \<lparr>key = ''Model Number'', patterns = [''model number'']\<rparr>
     [''Model Number'', ''MX-4410''] = Inr ''MX-4410'' \<and>
   extractFieldValue engine \<lparr>key = ''Model Number'', patterns = [''model number'']\<rparr>
     [''Model Number'', ''MX-4410'', ''Model Number'', ''ZZ-1''] = Inr ''MX-4410'' \<and>
   extractFieldValue engine \<lparr>key = ''Model Number'', patterns = [''model number'']\<rparr>
     [''Model Number''] = Inr notFound"
proof
  fix engine
  let ?spec = "\<lparr>key = ''Model Number'', patterns = [''model number'']\<rparr>"
  have l: "list_all (\<lambda>p. toLowerCase p = p) (patterns ?spec)"
    by code_simp
  have 1: "selects contains_ci (patterns ?spec) [''Model Number'', ''MX-4410''] 0 0"
    by code_simp
  have 2: "selects contains_ci (patterns ?spec)
      [''Model Number'', ''MX-4410'', ''Model Number'', ''ZZ-1''] 0 0"
    by code_simp
  have 3: "selects contains_ci (patterns ?spec) [''Model Number''] 0 0"
    by code_simp
  have p: "plainText (patterns ?spec ! 0)"
    by code_simp
  have c1: "trim (removePunctuation (remove_occurrences_ci (patterns ?spec ! 0)
      ([''Model Number'', ''MX-4410''] ! 0))) = []"
    by code_simp
  have c2: "trim (removePunctuation (remove_occurrences_ci (patterns ?spec ! 0)
      ([''Model Number'', ''MX-4410'', ''Model Number'', ''ZZ-1''] ! 0))) = []"
    by code_simp
  have c3: "trim (removePunctuation (remove_occurrences_ci (patterns ?spec ! 0)
      ([''Model Number''] ! 0))) = []"
    by code_simp
  have t: "trim ''MX-4410'' = ''MX-4410''"
    by code_simp
  show "extractFieldValue engine ?spec [''Model Number'', ''MX-4410''] = Inr ''MX-4410'' \<and>
    extractFieldValue engine ?spec
      [''Model Number'', ''MX-4410'', ''Model Number'', ''ZZ-1''] = Inr ''MX-4410'' \<and>
    extractFieldValue engine ?spec [''Model Number''] = Inr notFound"
    using fallback_next_line [OF l 1 p c1, where engine = engine]
      fallback_next_line [OF l 2 p c2, where engine = engine]
      fallback_next_line [OF l 3 p c3, where engine = engine] t
    by simp
qed

text \<open>
  C2 as stated fails for a pattern with an upper-case letter and for a pattern with a
  dot. With the pattern \<open>Model Number\<close>, Scenario B gives the not-found text: the test
  compares the lower-case line with the pattern as it is. With the pattern of two
  dots, the line of a colon and two dots is empty once the pattern text and the colon
  are removed, but the two dots of the expression match the colon and the first dot, so
  the value is the dot that is left and not the next line.
\<close>

theorem fallback_next_line_counterexample:
  "\<forall>engine.
   selects contains_ci [''Model Number''] [''Model Number'', ''MX-4410''] 0 0 \<and>
   trim (removePunctuation (remove_occurrences_ci ''Model Number'' ''Model Number'')) = [] \<and>
   extractFieldValue engine \<lparr>key = ''Model Number'', patterns = [''Model Number'']\<rparr>
     [''Model Number'', ''MX-4410''] = Inr ''Not found'' \<and>
   selects contains_ci [''..''] ['':..'', ''X9''] 0 0 \<and>
   trim (removePunctuation (remove_occurrences_ci ''..'' '':..'')) = [] \<and>
   extractFieldValue engine \<lparr>key = ''Model Number'', patterns = [''..'']\<rparr>
     ['':..'', ''X9''] = Inr ''.''"
  by (rule allI) code_simp

subsection \<open>No match\<close>

text \<open>
  C8. If no line contains any of the field's patterns as a case-insensitive substring,
  the matcher returns the not-found text, as a value and not as an error. The empty
  text has no line, and every field is not found there.
\<close>

theorem no_match_notFound:
  assumes "\<forall>l \<in> set ls. \<forall>p \<in> set (patterns spec). \<not> contains_ci l p"
  shows "extractFieldValue engine spec ls = Inr notFound \<and>
    lines [] = [] \<and> extractFieldValue engine spec' (lines []) = Inr notFound"
proof -
  from assms have "list_all (\<lambda>l. list_all (\<lambda>p. \<not> lineMatches l p) (patterns spec)) ls"
    using lineMatches_contains_ci by (auto simp: list_all_iff)
  then have "extractFieldValue engine spec ls = Inr notFound"
    by (rule extractFieldValue_none)
  moreover have "lines [] = []"
    by (simp add: lines_def trim_def)
  moreover have "extractFieldValue engine spec' [] = Inr notFound"
    by (simp add: extractFieldValue_def)
  ultimately show ?thesis by simp
qed

theorem no_match_notFound_witness:
  "\<forall>engine.
   extractFieldValue engine \<lparr>key = ''Serial Number'', patterns = [''serial'', ''s/n'']\<rparr>
     [''Random text only''] = Inr ''Not found'' \<and>
   fields engine importantFields (lines []) =
     Inr [(''Model Name'', ''Not found''), (''Model Number'', ''Not found''),
          (''Serial Number'', ''Not found'')]"
proof
  fix engine
  let ?spec = "\<lparr>key = ''Serial Number'', patterns = [''serial'', ''s/n'']\<rparr>"
  have h: "\<forall>l \<in> set [''Random text only'']. \<forall>p \<in> set (patterns ?spec). \<not> contains_ci l p"
    by code_simp
  have f: "fields engine importantFields (lines []) =
     Inr [(''Model Name'', ''Not found''), (''Model Number'', ''Not found''),
          (''Serial Number'', ''Not found'')]"
    by code_simp
  show "extractFieldValue engine ?spec [''Random text only''] = Inr ''Not found'' \<and>
    fields engine importantFields (lines []) =
     Inr [(''Model Name'', ''Not found''), (''Model Number'', ''Not found''),
          (''Serial Number'', ''Not found'')]"
    using no_match_notFound [OF h, where engine = engine] f by (simp add: notFound_def)
qed

subsection \<open>Scenario A\<close>

text \<open>
  C1, as amended. For the lines \<open>Model: Acme X200\<close> and \<open>S/N: 99-AB-221\<close> and the
  fields Model Name with the pattern \<open>model\<close> and Serial Number with the pattern
  \<open>s/n\<close>, the value of Model Name is \<open>Acme X200\<close> and the value of Serial Number is
  \<open>99AB221\<close>: the hyphens of the serial number are removed with the punctuation.
\<close>

theorem scenario_A:
  "extractFieldValue engine \<lparr>key = ''Model Name'', patterns = [''model'']\<rparr>
     [''Model: Acme X200'', ''S/N: 99-AB-221''] = Inr ''Acme X200'' \<and>
   extractFieldValue engine \<lparr>key = ''Serial Number'', patterns = [''s/n'']\<rparr>
     [''Model: Acme X200'', ''S/N: 99-AB-221''] = Inr ''99AB221'' \<and>
   fields engine [\<lparr>key = ''Model Name'', patterns = [''model'']\<rparr>,
           \<lparr>key = ''Serial Number'', patterns = [''s/n'']\<rparr>]
     [''Model: Acme X200'', ''S/N: 99-AB-221''] =
     Inr [(''Model Name'', ''Acme X200''), (''Serial Number'', ''99AB221'')]"
  by code_simp

text \<open>C1 as stated fails: the value of Serial Number is not \<open>99-AB-221\<close>.\<close>

theorem scenario_A_counterexample:
  "\<forall>engine.
   extractFieldValue engine \<lparr>key = ''Serial Number'', patterns = [''s/n'']\<rparr>
     [''Model: Acme X200'', ''S/N: 99-AB-221''] \<noteq> Inr ''99-AB-221''"
  by (rule allI) code_simp

subsection \<open>The not-found text as a found value\<close>

text \<open>
  C9. The not-found outcome is the text \<open>Not found\<close>. On a line that contains the
  pattern and goes on with that text, and on a matching line followed by that text, the
  extracted value is the same text, and neither the object of fields nor the summary
  tells the run from one on a text without any match.
\<close>

theorem notFound_indistinguishable:
  "notFound = ''Not found'' \<and>
   contains_ci ''Model: Not found'' ''model'' \<and>
   extractFieldValue engine \<lparr>key = ''Model Name'', patterns = [''model'']\<rparr>
     [''Model: Not found''] = Inr ''Not found'' \<and>
   contains_ci ''Model'' ''model'' \<and>
   extractFieldValue engine \<lparr>key = ''Model Name'', patterns = [''model'']\<rparr>
     [''Model'', ''Not found''] = Inr ''Not found'' \<and>
   extractFieldValue engine \<lparr>key = ''Model Name'', patterns = [''model'']\<rparr>
     [''Serial 12''] = Inr ''Not found'' \<and>
   extraction engine [\<lparr>key = ''Model Name'', patterns = [''model'']\<rparr>] ''Model: Not found'' =
     Inr ([(''Model Name'', ''Not found'')], ''Model Name: Not found'') \<and>
   extraction engine [\<lparr>key = ''Model Name'', patterns = [''model'']\<rparr>] ''Serial 12'' =
     Inr ([(''Model Name'', ''Not found'')], ''Model Name: Not found'')"
  by code_simp

subsection \<open>Determinism\<close>

text \<open>
  C10. The object of fields and the summary that a run leaves in the state are those of
  \<open>extraction\<close> on the configuration and the recognised text, whatever the state before:
  two runs on the same configuration and text leave the same object and the same
  summary.
\<close>

theorem extraction_deterministic:
  "extractedFields (extractText engine config raw st) =
     extractedFields (extractText engine config raw st') \<and>
   extractedText (extractText engine config raw st) =
     extractedText (extractText engine config raw st') \<and>
   (case extraction engine config raw of
      Inr (obj, summary) \<Rightarrow>
        extractedFields (extractText engine config raw st) = obj \<and>
        extractedText (extractText engine config raw st) = summary
    | Inl e \<Rightarrow> extractedFields (extractText engine config raw st) = [])"
  by (simp add: extractText_def Let_def split: sum.splits prod.splits)

subsection \<open>The candidate value\<close>

text \<open>
  C3, as amended. Let no pattern of the field hold an upper-case letter, let line \<open>i\<close>
  be the earliest line that contains any of the patterns as a case-insensitive
  substring and pattern \<open>k\<close> the first pattern it contains, and let that pattern hold no
  syntax character of regular expressions. Then the candidate value is the line with
  all case-insensitive occurrences of the pattern text removed, then without the
  characters colon, equals sign, hyphen and vertical bar, then trimmed; and when it is
  not empty it is the field's value.
\<close>

theorem candidate_value_found:
  assumes "list_all (\<lambda>p. toLowerCase p = p) (patterns spec)"
    and "selects contains_ci (patterns spec) ls i k"
    and "plainText (patterns spec ! k)"
  shows "candidateValue engine (patterns spec ! k) (ls ! i) =
      Inr (trim (removePunctuation (remove_occurrences_ci (patterns spec ! k) (ls ! i)))) \<and>
    (trim (removePunctuation (remove_occurrences_ci (patterns spec ! k) (ls ! i))) \<noteq> [] \<longrightarrow>
     extractFieldValue engine spec ls =
      Inr (trim (removePunctuation (remove_occurrences_ci (patterns spec ! k) (ls ! i)))))"
proof -
  from assms(1,2) have sel: "selects lineMatches (patterns spec) ls i k"
    by (simp add: selects_lower_case)
  from assms(3) show ?thesis
    by (simp add: candidateValue_plainText extractFieldValue_selects [OF sel]
        matched_selects [OF sel])
qed

theorem candidate_value_found_witness:
  "\<forall>engine.
   remove_occurrences_ci ''sn'' ''SN sn: 12-7'' = '' : 12-7'' \<and>
   candidateValue engine ''sn'' ''SN sn: 12-7'' = Inr ''127'' \<and>
   extractFieldValue engine \<lparr>key = ''Serial Number'', patterns = [''serial'', ''sn'']\<rparr>
     [''Label'', ''SN sn: 12-7''] = Inr ''127''"
proof
  fix engine
  let ?spec = "\<lparr>key = ''Serial Number'', patterns = [''serial'', ''sn'']\<rparr>"
  let ?ls = "[''Label'', ''SN sn: 12-7'']"
  have l: "list_all (\<lambda>p. toLowerCase p = p) (patterns ?spec)"
    by code_simp
  have 1: "selects contains_ci (patterns ?spec) ?ls 1 1"
    by code_simp
  have 2: "plainText (patterns ?spec ! 1)"
    by code_simp
  have 3: "patterns ?spec ! 1 = ''sn''" "?ls ! 1 = ''SN sn: 12-7''"
    by simp_all
  have 4: "remove_occurrences_ci ''sn'' ''SN sn: 12-7'' = '' : 12-7''"
    by code_simp
  have 5: "trim (removePunctuation '' : 12-7'') = ''127''"
    by code_simp
  show "remove_occurrences_ci ''sn'' ''SN sn: 12-7'' = '' : 12-7'' \<and>
    candidateValue engine ''sn'' ''SN sn: 12-7'' = Inr ''127'' \<and>
    extractFieldValue engine ?spec ?ls = Inr ''127''"
    using candidate_value_found [OF l 1 2, where engine = engine] unfolding 3 4 5 by simp
qed

text \<open>
  C3 as stated fails for a pattern with a dot and for a pattern with an upper-case
  letter. The dot of the pattern \<open>p.n\<close> matches any character, so the word \<open>pin\<close> is
  removed with \<open>P.N\<close> and the value is \<open>5\<close>, not the line without the occurrences of
  the pattern text. The line \<open>Model: X1\<close> contains the pattern \<open>Model\<close> and without it
  leaves \<open>X1\<close>, but the test compares the lower-case line with the pattern as it is, and
  the value is the not-found text.
\<close>

theorem candidate_value_found_counterexample:
  "\<forall>engine.
   selects contains_ci [''p.n''] [''P.N: pin 5''] 0 0 \<and>
   trim (removePunctuation (remove_occurrences_ci ''p.n'' ''P.N: pin 5'')) = ''pin 5'' \<and>
   candidateValue engine ''p.n'' ''P.N: pin 5'' = Inr ''5'' \<and>
   extractFieldValue engine \<lparr>key = ''Model Number'', patterns = [''p.n'']\<rparr>
     [''P.N: pin 5''] = Inr ''5'' \<and>
   selects contains_ci [''Model''] [''Model: X1''] 0 0 \<and>
   trim (removePunctuation (remove_occurrences_ci ''Model'' ''Model: X1'')) = ''X1'' \<and>
   extractFieldValue engine \<lparr>key = ''Model Name'', patterns = [''Model'']\<rparr>
     [''Model: X1''] = Inr ''Not found''"
  by (rule allI) code_simp

subsection \<open>The shape of a value\<close>

lemma set_trim: "set (trim s) \<subseteq> set s"
  by (auto simp: trim_def dest!: set_dropWhileD)

lemma candidateValue_no_punctuation:
  assumes "candidateValue engine p l = Inr v"
  shows "list_all (\<lambda>c. \<not> punctuation c) v"
proof -
  from assms obtain s where "v = trim (removePunctuation s)"
    by (auto simp: candidateValue_def split: sum.splits)
  then have "set v \<subseteq> set (removePunctuation s)"
    by (simp add: set_trim)
  then show ?thesis
    by (auto simp: list_all_iff removePunctuation_def)
qed

lemma candidateValue_trimmed:
  assumes "candidateValue engine p l = Inr v" and "v \<noteq> []"
  shows "\<not> isWhiteSpace (hd v) \<and> \<not> isWhiteSpace (last v)"
proof -
  from assms obtain s where "v = trim s"
    by (auto simp: candidateValue_def split: sum.splits)
  with assms(2) show ?thesis
    using trim_hd [of s] trim_last [of s] by simp
qed

lemma notFound_shape:
  "notFound \<noteq> [] \<and> \<not> isWhiteSpace (hd notFound) \<and> \<not> isWhiteSpace (last notFound) \<and>
   list_all (\<lambda>c. \<not> punctuation c) notFound"
  by code_simp

text \<open>
  C4, as amended. On a line sequence (non-empty, trimmed lines), every value the matcher
  returns is non-empty and neither starts nor ends with white space. It holds none of
  the characters colon, equals sign, hyphen and vertical bar, unless it is the fallback
  value: the line after the matching line, returned as it is.
\<close>

theorem value_shape:
  assumes "extractFieldValue engine spec ls = Inr v" and "lineSequence ls"
  shows "v \<noteq> [] \<and> \<not> isWhiteSpace (hd v) \<and> \<not> isWhiteSpace (last v) \<and>
    (list_all (\<lambda>c. \<not> punctuation c) v \<or>
     (\<exists>i k. selects lineMatches (patterns spec) ls i k \<and>
        candidateValue engine (patterns spec ! k) (ls ! i) = Inr [] \<and>
        Suc i < length ls \<and> v = ls ! Suc i))"
proof (cases "list_all (\<lambda>l. list_all (\<lambda>p. \<not> lineMatches l p) (patterns spec)) ls")
  case True
  then have "v = notFound"
    using assms(1) by (simp add: extractFieldValue_none)
  then show ?thesis using notFound_shape by simp
next
  case False
  then obtain i k where sel: "selects lineMatches (patterns spec) ls i k"
    using selects_exists by blast
  let ?p = "patterns spec ! k"
  from sel assms(1) have m: "matched engine ?p (ls ! i) ls = Inr v"
    by (simp add: extractFieldValue_selects)
  then obtain c where c: "candidateValue engine ?p (ls ! i) = Inr c"
    by (auto simp: matched_selects [OF sel] split: sum.splits)
  show ?thesis
  proof (cases "c = []")
    case False
    with m c have "v = c"
      by (simp add: matched_selects [OF sel])
    with c False show ?thesis
      using candidateValue_no_punctuation [where p = ?p and l = "ls ! i" and v = c]
        candidateValue_trimmed [where p = ?p and l = "ls ! i" and v = c] by simp
  next
    case True
    show ?thesis
    proof (cases "Suc i < length ls")
      case False
      with m c True have "v = notFound"
        by (simp add: matched_selects [OF sel])
      then show ?thesis using notFound_shape by simp
    next
      case next_line: True
      let ?n = "ls ! Suc i"
      from next_line have "?n \<in> set ls" by simp
      with assms(2) have n: "?n \<noteq> []" "\<not> isWhiteSpace (hd ?n)" "\<not> isWhiteSpace (last ?n)"
        by (simp_all add: lineSequence_def list_all_iff)
      then have "trim ?n = ?n" by (rule trim_trimmed)
      with m c True next_line have v: "v = ?n"
        by (simp add: matched_selects [OF sel])
      from c True have "candidateValue engine ?p (ls ! i) = Inr []"
        by simp
      with sel next_line v have "\<exists>i k. selects lineMatches (patterns spec) ls i k \<and>
        candidateValue engine (patterns spec ! k) (ls ! i) = Inr [] \<and>
        Suc i < length ls \<and> v = ls ! Suc i"
        by blast
      with n v show ?thesis by simp
    qed
  qed
qed

theorem value_shape_witness:
  "\<forall>engine.
   extractFieldValue engine \<lparr>key = ''Model Name'', patterns = [''model'']\<rparr>
     [''Model: Acme X200'', ''S/N: 99-AB-221''] = Inr ''Acme X200'' \<and>
   ''Acme X200'' \<noteq> [] \<and> \<not> isWhiteSpace (hd ''Acme X200'') \<and>
   \<not> isWhiteSpace (last ''Acme X200'') \<and> list_all (\<lambda>c. \<not> punctuation c) ''Acme X200''"
proof
  fix engine
  let ?spec = "\<lparr>key = ''Model Name'', patterns = [''model'']\<rparr>"
  let ?ls = "[''Model: Acme X200'', ''S/N: 99-AB-221'']"
  have 1: "extractFieldValue engine ?spec ?ls = Inr ''Acme X200''"
    by code_simp
  have 2: "lineSequence ?ls"
    by code_simp
  have 3: "\<not> (\<exists>i k. selects lineMatches (patterns ?spec) ?ls i k \<and>
        candidateValue engine (patterns ?spec ! k) (?ls ! i) = Inr [] \<and>
        Suc i < length ?ls \<and> ''Acme X200'' = ?ls ! Suc i)"
    by (simp add: less_Suc_eq)
  show "extractFieldValue engine ?spec ?ls = Inr ''Acme X200'' \<and>
    ''Acme X200'' \<noteq> [] \<and> \<not> isWhiteSpace (hd ''Acme X200'') \<and>
    \<not> isWhiteSpace (last ''Acme X200'') \<and> list_all (\<lambda>c. \<not> punctuation c) ''Acme X200''"
    using value_shape [OF 1 2] 1 3 by blast
qed

text \<open>
  C4 as stated fails for the fallback value: in Scenario B the value is the next line,
  with its hyphen.
\<close>

theorem value_shape_counterexample:
  "\<forall>engine.
   lineSequence [''Model Number'', ''MX-4410''] \<and>
   extractFieldValue engine \<lparr>key = ''Model Number'', patterns = [''model number'']\<rparr>
     [''Model Number'', ''MX-4410''] = Inr ''MX-4410'' \<and>
   ''MX-4410'' \<noteq> notFound \<and>
   punctuation (CHR ''-'') \<and> CHR ''-'' \<in> set ''MX-4410''"
  by (rule allI) code_simp

subsection \<open>First match wins\<close>

text \<open>
  C5, as amended. Let no pattern of the field hold an upper-case letter. If line \<open>i\<close> is
  the earliest line that contains any of the patterns as a case-insensitive substring,
  and pattern \<open>k\<close> the first pattern in configured order that it contains, then the
  field's value is the one the matcher computes from that line and that pattern; and
  without the patterns after pattern \<open>k\<close> and the lines after line \<open>i + 1\<close> the value is
  the same.
\<close>

theorem first_match_wins:
  assumes "list_all (\<lambda>p. toLowerCase p = p) (patterns spec)"
    and "selects contains_ci (patterns spec) ls i k"
  shows "extractFieldValue engine spec ls = matched engine (patterns spec ! k) (ls ! i) ls \<and>
    extractFieldValue engine (spec\<lparr>patterns := take (Suc k) (patterns spec)\<rparr>) (take (Suc (Suc i)) ls) =
      extractFieldValue engine spec ls"
proof -
  let ?ps = "patterns spec" and ?ls' = "take (Suc (Suc i)) ls"
  let ?spec' = "spec\<lparr>patterns := take (Suc k) ?ps\<rparr>"
  from assms have sel: "selects lineMatches ?ps ls i k"
    by (simp add: selects_lower_case)
  then have i: "i < length ls" and k: "k < length ?ps"
    by (simp_all add: selects_def)
  from sel have sel': "selects lineMatches (patterns ?spec') ?ls' i k"
    using selects_take by simp
  have 1: "extractFieldValue engine spec ls = matched engine (?ps ! k) (ls ! i) ls"
    using sel by (rule extractFieldValue_selects)
  have "extractFieldValue engine ?spec' ?ls' = matched engine (patterns ?spec' ! k) (?ls' ! i) ?ls'"
    using sel' by (rule extractFieldValue_selects)
  also have "\<dots> = matched engine (?ps ! k) (ls ! i) ?ls'"
    using i k by simp
  also have "\<dots> = matched engine (?ps ! k) (ls ! i) ls"
  proof -
    have "?ls' ! i = ls ! i" using i by simp
    then have a: "matched engine (?ps ! k) (ls ! i) ?ls' =
      (case candidateValue engine (?ps ! k) (ls ! i) of
         Inl e \<Rightarrow> Inl e
       | Inr v \<Rightarrow>
           if v \<noteq> [] then Inr v
           else if Suc i < length ?ls' then Inr (trim (?ls' ! Suc i)) else Inr notFound)"
      using matched_selects [OF sel', where p = "?ps ! k" and engine = engine] by simp
    have b: "(Suc i < length ?ls') = (Suc i < length ls)"
      by auto
    have c: "Suc i < length ls \<Longrightarrow> ?ls' ! Suc i = ls ! Suc i"
      by simp
    show ?thesis
      unfolding a matched_selects [OF sel, where p = "?ps ! k" and engine = engine] b using c
      by (simp split: sum.splits)
  qed
  finally show ?thesis using 1 by simp
qed

theorem first_match_wins_witness:
  "\<forall>engine.
   extractFieldValue engine \<lparr>key = ''Serial Number'', patterns = [''serial number'', ''s/n'']\<rparr>
     [''Model: X1'', ''S/N: 123'', ''Serial Number: 456''] = Inr ''123''"
proof
  fix engine
  let ?spec = "\<lparr>key = ''Serial Number'', patterns = [''serial number'', ''s/n'']\<rparr>"
  let ?ls = "[''Model: X1'', ''S/N: 123'', ''Serial Number: 456'']"
  have 1: "list_all (\<lambda>p. toLowerCase p = p) (patterns ?spec)"
    by code_simp
  have 2: "selects contains_ci (patterns ?spec) ?ls 1 1"
    by code_simp
  have 3: "matched engine (patterns ?spec ! 1) (?ls ! 1) ?ls = Inr ''123''"
    by code_simp
  show "extractFieldValue engine ?spec ?ls = Inr ''123''"
    using first_match_wins [OF 1 2, where engine = engine] 3 by simp
qed

text \<open>
  C5 as stated fails for a pattern with an upper-case letter: the line \<open>Model: X1\<close>
  contains the pattern \<open>Model\<close>, and from that line and pattern the matcher would
  compute \<open>X1\<close>, but its test compares the lower-case line with the pattern as it is
  and selects no line.
\<close>

theorem first_match_wins_counterexample:
  "\<forall>engine.
   selects contains_ci [''Model''] [''Model: X1''] 0 0 \<and>
   matched engine ''Model'' ''Model: X1'' [''Model: X1''] = Inr ''X1'' \<and>
   extractFieldValue engine \<lparr>key = ''Model Name'', patterns = [''Model'']\<rparr> [''Model: X1''] =
     Inr ''Not found''"
  by (rule allI) code_simp

subsection \<open>The object of fields and the summary\<close>

lemma setProperty_new:
  "k \<noteq> ''__proto__'' \<Longrightarrow> \<not> arrayIndex k \<Longrightarrow> k \<notin> fst ` set obj \<Longrightarrow>
   setProperty obj k v = obj @ [(k, v)]"
  by (simp add: setProperty_def map_of_eq_None_iff)

lemma forEach_appends:
  assumes "forEach engine specs ls obj = Inr obj'"
    and "distinct (map fst obj @ map key specs)"
    and "\<forall>s \<in> set specs. key s \<noteq> ''__proto__'' \<and> \<not> arrayIndex (key s)"
  shows "\<exists>vs. obj' = obj @ zip (map key specs) vs \<and>
    list_all2 (\<lambda>s v. extractFieldValue engine s ls = Inr v) specs vs"
  using assms
proof (induction specs arbitrary: obj)
  case Nil
  then show ?case by simp
next
  case (Cons s specs)
  from Cons.prems(1) obtain v where v: "extractFieldValue engine s ls = Inr v"
    and rest: "forEach engine specs ls (setProperty obj (key s) v) = Inr obj'"
    by (auto split: sum.splits)
  from Cons.prems(2,3) have "setProperty obj (key s) v = obj @ [(key s, v)]"
    by (intro setProperty_new) auto
  with rest have rest': "forEach engine specs ls (obj @ [(key s, v)]) = Inr obj'"
    by simp
  from Cons.prems(2) have "distinct (map fst (obj @ [(key s, v)]) @ map key specs)"
    by auto
  with Cons.IH [OF rest'] Cons.prems(3) obtain vs
    where "obj' = (obj @ [(key s, v)]) @ zip (map key specs) vs"
      and "list_all2 (\<lambda>s v. extractFieldValue engine s ls = Inr v) specs vs"
    by auto
  with v have "obj' = obj @ zip (map key (s # specs)) (v # vs) \<and>
    list_all2 (\<lambda>s v. extractFieldValue engine s ls = Inr v) (s # specs) (v # vs)"
    by simp
  then show ?case by blast
qed

lemma extractFieldValue_returns:
  assumes "list_all dotPattern (patterns spec)"
  shows "\<exists>v. extractFieldValue engine spec ls = Inr v"
proof (cases "list_all (\<lambda>l. list_all (\<lambda>p. \<not> lineMatches l p) (patterns spec)) ls")
  case True
  then show ?thesis by (simp add: extractFieldValue_none)
next
  case False
  then obtain i k where sel: "selects lineMatches (patterns spec) ls i k"
    using selects_exists by blast
  then have "patterns spec ! k \<in> set (patterns spec)"
    by (simp add: selects_def)
  with assms have "dotPattern (patterns spec ! k)"
    by (simp add: list_all_iff)
  then obtain v where "candidateValue engine (patterns spec ! k) (ls ! i) = Inr v"
    by (auto simp: candidateValue_def replace_gi_def RegExp_def)
  then show ?thesis
    by (simp add: extractFieldValue_selects [OF sel] matched_selects [OF sel])
qed

lemma forEach_returns:
  "list_all (\<lambda>s. list_all dotPattern (patterns s)) specs \<Longrightarrow>
   \<exists>obj'. forEach engine specs ls obj = Inr obj'"
proof (induction specs arbitrary: obj)
  case Nil
  then show ?case by simp
next
  case (Cons s specs)
  then obtain v where "extractFieldValue engine s ls = Inr v"
    using extractFieldValue_returns [where spec = s and ls = ls and engine = engine] by auto
  with Cons show ?case by simp
qed

lemma fullText_zip:
  assumes "distinct ks" and "length vs = length ks" and "''__proto__'' \<notin> set ks"
    and "map key specs = ks"
  shows "fullText specs (zip ks vs) = join_newline (map (\<lambda>e. fst e @ '': '' @ snd e) (zip ks vs))"
proof -
  have "map (\<lambda>field. key field @ '': '' @ readProperty (zip ks vs) (key field)) specs =
    map (\<lambda>e. fst e @ '': '' @ snd e) (zip ks vs)"
  proof (rule nth_equalityI)
    show "length (map (\<lambda>field. key field @ '': '' @ readProperty (zip ks vs) (key field)) specs) =
      length (map (\<lambda>e. fst e @ '': '' @ snd e) (zip ks vs))"
      using assms(2,4) by (metis length_map length_zip min.idem)
  next
    fix j
    assume "j < length (map (\<lambda>field. key field @ '': '' @ readProperty (zip ks vs) (key field)) specs)"
    then have j: "j < length specs" by simp
    then have jk: "j < length ks" using assms(4) by auto
    have kj: "key (specs ! j) = ks ! j"
      using assms(4) j by (metis nth_map)
    have "map_of (zip ks vs) (ks ! j) = Some (vs ! j)"
      using assms(1,2) jk by (intro map_of_zip_nth) simp_all
    moreover have "ks ! j \<noteq> ''__proto__''"
      using assms(3) jk by (metis nth_mem)
    ultimately have "readProperty (zip ks vs) (ks ! j) = vs ! j"
      by (simp add: readProperty_def)
    then show "map (\<lambda>field. key field @ '': '' @ readProperty (zip ks vs) (key field)) specs ! j =
      map (\<lambda>e. fst e @ '': '' @ snd e) (zip ks vs) ! j"
      using j jk kj assms(2) by simp
  qed
  then show ?thesis by (simp add: fullText_def)
qed

text \<open>
  C6, as amended. Let the keys of the configured fields be pairwise distinct, none of
  them an array index or the key \<open>__proto__\<close>. Then whenever the extraction has a result,
  that is, no regular expression throws, the result holds one entry per field, in the
  order of the configuration, each with the field's key and the value the matcher
  returns for it, and the summary is the lines made of key, colon, space and value, one
  per entry in that order, joined by line feeds. The extraction has a result when no
  pattern holds a syntax character of regular expressions other than the dot.
\<close>

theorem one_entry_per_field:
  assumes "distinct (map key specs)"
    and "\<forall>s \<in> set specs. key s \<noteq> ''__proto__'' \<and> \<not> arrayIndex (key s)"
  shows "(\<forall>obj summary. extraction engine specs raw = Inr (obj, summary) \<longrightarrow>
      map fst obj = map key specs \<and>
      list_all2 (\<lambda>s e. extractFieldValue engine s (lines raw) = Inr (snd e)) specs obj \<and>
      summary = join_newline (map (\<lambda>e. fst e @ '': '' @ snd e) obj)) \<and>
    (list_all (\<lambda>s. list_all dotPattern (patterns s)) specs \<longrightarrow>
      (\<exists>obj summary. extraction engine specs raw = Inr (obj, summary)))"
proof (intro conjI allI impI)
  fix obj summary
  assume ex: "extraction engine specs raw = Inr (obj, summary)"
  then have f: "forEach engine specs (lines raw) [] = Inr obj"
    and s: "summary = fullText specs obj"
    by (auto simp: extraction_def fields_def split: sum.splits)
  from forEach_appends [OF f] assms obtain vs
    where obj: "obj = zip (map key specs) vs"
      and vs: "list_all2 (\<lambda>s v. extractFieldValue engine s (lines raw) = Inr v) specs vs"
    by auto
  from vs have len: "length vs = length (map key specs)"
    by (simp add: list_all2_lengthD)
  then show "map fst obj = map key specs"
    unfolding obj by simp
  show "list_all2 (\<lambda>s e. extractFieldValue engine s (lines raw) = Inr (snd e)) specs obj"
    unfolding obj list_all2_conv_all_nth
  proof (intro conjI allI impI)
    show "length specs = length (zip (map key specs) vs)"
      using len by simp
  next
    fix j
    assume "j < length specs"
    then show "extractFieldValue engine (specs ! j) (lines raw) =
      Inr (snd (zip (map key specs) vs ! j))"
      using vs len by (simp add: list_all2_conv_all_nth)
  qed
  have "''__proto__'' \<notin> set (map key specs)"
    using assms(2) by auto
  with assms(1) len show "summary = join_newline (map (\<lambda>e. fst e @ '': '' @ snd e) obj)"
    unfolding s obj by (intro fullText_zip) simp_all
next
  assume "list_all (\<lambda>s. list_all dotPattern (patterns s)) specs"
  then obtain obj where "forEach engine specs (lines raw) [] = Inr obj"
    using forEach_returns by blast
  then show "\<exists>obj summary. extraction engine specs raw = Inr (obj, summary)"
    by (simp add: extraction_def fields_def)
qed

theorem one_entry_per_field_witness:
  "\<forall>engine.
   extraction engine importantFields ''Model: Acme X200\<newline>S/N: 99-AB-221'' =
     Inr ([(''Model Name'', ''Acme X200''), (''Model Number'', ''Not found''),
           (''Serial Number'', ''99AB221'')],
          ''Model Name: Acme X200\<newline>Model Number: Not found\<newline>Serial Number: 99AB221'') \<and>
   (\<exists>obj summary.
      extraction engine importantFields ''Model: Acme X200\<newline>S/N: 99-AB-221'' =
        Inr (obj, summary) \<and>
      map fst obj = map key importantFields \<and>
      summary = join_newline (map (\<lambda>e. fst e @ '': '' @ snd e) obj))"
proof
  fix engine
  have 1: "distinct (map key importantFields)"
    by code_simp
  have 2: "\<forall>s \<in> set importantFields. key s \<noteq> ''__proto__'' \<and> \<not> arrayIndex (key s)"
    by code_simp
  have 3: "list_all (\<lambda>s. list_all dotPattern (patterns s)) importantFields"
    by code_simp
  have 4: "extraction engine importantFields ''Model: Acme X200\<newline>S/N: 99-AB-221'' =
     Inr ([(''Model Name'', ''Acme X200''), (''Model Number'', ''Not found''),
           (''Serial Number'', ''99AB221'')],
          ''Model Name: Acme X200\<newline>Model Number: Not found\<newline>Serial Number: 99AB221'')"
    by code_simp
  show "extraction engine importantFields ''Model: Acme X200\<newline>S/N: 99-AB-221'' =
     Inr ([(''Model Name'', ''Acme X200''), (''Model Number'', ''Not found''),
           (''Serial Number'', ''99AB221'')],
          ''Model Name: Acme X200\<newline>Model Number: Not found\<newline>Serial Number: 99AB221'') \<and>
   (\<exists>obj summary.
      extraction engine importantFields ''Model: Acme X200\<newline>S/N: 99-AB-221'' =
        Inr (obj, summary) \<and>
      map fst obj = map key importantFields \<and>
      summary = join_newline (map (\<lambda>e. fst e @ '': '' @ snd e) obj))"
    using one_entry_per_field [OF 1 2, where engine = engine
        and raw = "''Model: Acme X200\<newline>S/N: 99-AB-221''"] 3 4
    by blast
qed

text \<open>
  C6 as stated fails in three ways. Two fields with the same key share one entry,
  and the summary shows the value of the second field on both lines. Keys that are
  array indices are listed by ascending value, not in the order of the configuration.
  And with the pattern of an opening parenthesis on a line that contains one, the
  regular expression throws: there is no result, the fields of the state stay empty
  and its text is the message of the \<^verbatim>\<open>catch\<close> block.
\<close>

theorem one_entry_per_field_counterexample:
  "\<forall>engine.
   extraction engine [\<lparr>key = ''K'', patterns = [''a'']\<rparr>, \<lparr>key = ''K'', patterns = [''b'']\<rparr>]
     ''a 1\<newline>b 2'' = Inr ([(''K'', ''2'')], ''K: 2\<newline>K: 2'') \<and>
   extractFieldValue engine \<lparr>key = ''K'', patterns = [''a'']\<rparr> (lines ''a 1\<newline>b 2'') =
     Inr ''1'' \<and>
   extraction engine [\<lparr>key = ''2'', patterns = [''a'']\<rparr>, \<lparr>key = ''1'', patterns = [''b'']\<rparr>]
     ''a 1\<newline>b 2'' = Inr ([(''1'', ''2''), (''2'', ''1'')], ''2: 1\<newline>1: 2'') \<and>
   extraction engine [\<lparr>key = ''Amount'', patterns = [''('']\<rparr>] ''f(x): 5'' = Inl SyntaxError \<and>
   extractedFields (extractText engine [\<lparr>key = ''Amount'', patterns = [''('']\<rparr>] ''f(x): 5''
     \<lparr>extractedText = [], extractedFields = [], isProcessing = False\<rparr>) = [] \<and>
   extractedText (extractText engine [\<lparr>key = ''Amount'', patterns = [''('']\<rparr>] ''f(x): 5''
     \<lparr>extractedText = [], extractedFields = [], isProcessing = False\<rparr>) =
     ''Error occurred while extracting text. Please try again.''"
  by (rule allI) code_simp

end
